theory Spec2Isabelle
  imports Main "HOL-Library.AList" "HOL-Library.Char_ord" "HOL-Library.List_Lexorder"
begin

unbundle bit_operations_syntax

section \<open>The file system seen by \<open>set_readonly\<close> and \<open>is_readonly\<close>\<close>

text \<open>
  \<open>heudiconv/utils.py\<close> reads a mode with \<open>os.lstat\<close>, writes one with \<open>os.chmod\<close> and
  resolves a path with \<open>os.path.realpath\<close>. The three calls differ in how they treat a
  symbolic link, so the model keeps symbolic links: a file system is a finite table from
  paths to entries, an entry is either a symbolic link (its own \<open>st_mode\<close> and its
  target) or anything else (a file or directory, with its \<open>st_mode\<close>). Paths are opaque
  keys: directories, relative targets, owners and access checks are not modelled, so the
  only failures are a missing entry (\<open>ENOENT\<close>) and too many links (\<open>ELOOP\<close>); both are
  \<open>OSError\<close>s in Python.

  Python integers are unbounded, so modes are \<open>int\<close>; \<open>&\<close>, \<open>|\<close>, \<open>~\<close> and \<open>>> 1\<close> are
  \<open>AND\<close>, \<open>OR\<close>, \<open>NOT\<close> and \<open>drop_bit 1\<close> on \<open>int\<close>.
\<close>

type_synonym path = string

datatype node = File int | Symlink int path

datatype os_error = ENOENT | ELOOP

type_synonym filesystem = "(path \<times> node) list"

fun st_mode :: "node \<Rightarrow> int" where
  "st_mode (File m) = m"
| "st_mode (Symlink m t) = m"

text \<open>\<open>os.lstat(path).st_mode\<close>: the entry's own mode; a final symbolic link is not followed.\<close>

definition lstat :: "filesystem \<Rightarrow> path \<Rightarrow> os_error + int" where
  "lstat fs p = (case map_of fs p of None \<Rightarrow> Inl ENOENT | Some n \<Rightarrow> Inr (st_mode n))"

text \<open>
  The kernel's path resolution, as \<open>chmod(2)\<close> uses it: symbolic links are followed, at most
  \<open>MAXSYMLINKS\<close> of them; the result is the entry reached and its mode.
\<close>

fun follow :: "nat \<Rightarrow> filesystem \<Rightarrow> path \<Rightarrow> os_error + (path \<times> int)" where
  "follow 0 fs p =
     (case map_of fs p of
        None \<Rightarrow> Inl ENOENT
      | Some (File m) \<Rightarrow> Inr (p, m)
      | Some (Symlink m t) \<Rightarrow> Inl ELOOP)"
| "follow (Suc k) fs p =
     (case map_of fs p of
        None \<Rightarrow> Inl ENOENT
      | Some (File m) \<Rightarrow> Inr (p, m)
      | Some (Symlink m t) \<Rightarrow> follow k fs t)"

definition MAXSYMLINKS :: nat where
  "MAXSYMLINKS = 40"

text \<open>\<open>stat.S_IMODE\<close>: the twelve permission bits \<open>0o7777\<close> of a mode.\<close>

definition S_IMODE :: "int \<Rightarrow> int" where
  "S_IMODE mode = mode AND 4095"

text \<open>
  \<open>os.chmod(path, mode)\<close> follows symbolic links (\<open>follow_symlinks=True\<close> is the default)
  and replaces the permission bits of the entry reached, keeping its file type bits.
\<close>

definition chmod :: "filesystem \<Rightarrow> path \<Rightarrow> int \<Rightarrow> filesystem \<times> (os_error + unit)" where
  "chmod fs p mode =
     (case follow MAXSYMLINKS fs p of
        Inl e \<Rightarrow> (fs, Inl e)
      | Inr (q, m) \<Rightarrow>
          (AList.update q (File ((m AND NOT 4095) OR (mode AND 4095))) fs, Inr ()))"

text \<open>
  \<open>os.path.realpath(path)\<close> (not strict): follows symbolic links with no bound on their
  number, remembers the links it is resolving, and on meeting one of them again returns
  that link unresolved. A missing entry is returned as it is.
\<close>

function realpath_from :: "filesystem \<Rightarrow> path list \<Rightarrow> path \<Rightarrow> path" where
  "realpath_from fs seen p =
     (case map_of fs p of
        Some (Symlink m t) \<Rightarrow> (if p \<in> set seen then p else realpath_from fs (p # seen) t)
      | _ \<Rightarrow> p)"
  by pat_completeness auto
termination
proof (relation "measure (\<lambda>(fs, seen, p). card (fst ` set fs - set seen))")
  show "wf (measure (\<lambda>(fs, seen, p). card (fst ` set fs - set seen)))"
    by simp
next
  fix fs :: filesystem and seen :: "path list" and p :: path and n m t
  assume look: "map_of fs p = Some n" and "n = Symlink m t" and fresh: "p \<notin> set seen"
  from look have "p \<in> fst ` set fs"
    by (metis map_of_eq_None_iff option.distinct(1))
  with fresh have "fst ` set fs - set (p # seen) \<subset> fst ` set fs - set seen"
    by auto
  then have "card (fst ` set fs - set (p # seen)) < card (fst ` set fs - set seen)"
    by (intro psubset_card_mono) auto
  then show "((fs, p # seen, t), (fs, seen, p)) \<in> measure (\<lambda>(fs, seen, p). card (fst ` set fs - set seen))"
    by simp
qed

declare realpath_from.simps [simp del]

definition realpath :: "filesystem \<Rightarrow> path \<Rightarrow> path" where
  "realpath fs p = realpath_from fs [] p"

section \<open>Permission toggling\<close>

text \<open>The constants of Python's \<open>stat\<close> module: \<open>0o200\<close>, \<open>0o020\<close>, \<open>0o002\<close>, \<open>0o400\<close>, \<open>0o040\<close>, \<open>0o004\<close>.\<close>

definition S_IWUSR :: int where "S_IWUSR = 128"
definition S_IWGRP :: int where "S_IWGRP = 16"
definition S_IWOTH :: int where "S_IWOTH = 2"
definition S_IRUSR :: int where "S_IRUSR = 256"
definition S_IRGRP :: int where "S_IRGRP = 32"
definition S_IROTH :: int where "S_IROTH = 4"

definition ALL_CAN_WRITE :: int where
  "ALL_CAN_WRITE = S_IWUSR OR S_IWGRP OR S_IWOTH"

definition ALL_CAN_READ :: int where
  "ALL_CAN_READ = S_IRUSR OR S_IRGRP OR S_IROTH"

text \<open>
  The mode computed by \<open>set_readonly\<close> from the permission bits it has read
  (lines 307 to 314 of \<open>utils.py\<close>).
\<close>

definition new_perms :: "int \<Rightarrow> bool \<Rightarrow> int" where
  "new_perms perms read_only =
     (if read_only then perms AND (NOT ALL_CAN_WRITE)
      else (let whocanread = perms AND ALL_CAN_READ;
                thosecanwrite = drop_bit 1 whocanread
            in perms OR thosecanwrite))"

text \<open>
  \<open>set_readonly(path, read_only)\<close>: \<open>os.lstat\<close>, the new mode, \<open>os.chmod\<close>, and the new mode
  returned. The file system is passed through; an \<open>OSError\<close> of either call ends the
  function with that error.
\<close>

definition set_readonly :: "filesystem \<Rightarrow> path \<Rightarrow> bool \<Rightarrow> filesystem \<times> (os_error + int)" where
  "set_readonly fs path read_only =
     (case lstat fs path of
        Inl e \<Rightarrow> (fs, Inl e)
      | Inr st \<Rightarrow>
          (let perms = S_IMODE st;
               np = new_perms perms read_only
           in case chmod fs path np of
                (fs', Inl e) \<Rightarrow> (fs', Inl e)
              | (fs', Inr u) \<Rightarrow> (fs', Inr np)))"

text \<open>
  \<open>is_readonly(path)\<close>: \<open>os.lstat\<close> of \<open>os.path.realpath(path)\<close>, then
  \<open>not bool(perms & ALL_CAN_WRITE)\<close>. It calls nothing that writes, so the file system it
  returns is the one it was given.
\<close>

definition is_readonly :: "filesystem \<Rightarrow> path \<Rightarrow> filesystem \<times> (os_error + bool)" where
  "is_readonly fs path =
     (case lstat fs (realpath fs path) of
        Inl e \<Rightarrow> (fs, Inl e)
      | Inr st \<Rightarrow> (let perms = S_IMODE st in (fs, Inr (\<not> (perms AND ALL_CAN_WRITE \<noteq> 0)))))"


text \<open>
  The three permission classes and the positions of their read and write bits, used to
  state properties class by class (the source itself only shifts the whole mode).
\<close>

datatype who = Owner | Group | Others

fun read_bit :: "who \<Rightarrow> nat" where
  "read_bit Owner = 8"
| "read_bit Group = 5"
| "read_bit Others = 2"

fun write_bit :: "who \<Rightarrow> nat" where
  "write_bit Owner = 7"
| "write_bit Group = 4"
| "write_bit Others = 1"

definition write_implies_read :: "int \<Rightarrow> bool" where
  "write_implies_read m = (\<forall>c. bit m (write_bit c) \<longrightarrow> bit m (read_bit c))"

text \<open>
  \<open>reach fs k p q\<close>: following exactly \<open>k\<close> symbolic links from \<open>p\<close> ends at the entry
  \<open>q\<close>, which is not a link. It relates the two resolutions, \<open>follow\<close> and \<open>realpath\<close>.
\<close>

fun reach :: "filesystem \<Rightarrow> nat \<Rightarrow> path \<Rightarrow> path \<Rightarrow> bool" where
  "reach fs 0 p q = (p = q \<and> (\<exists>m. map_of fs p = Some (File m)))"
| "reach fs (Suc k) p q = (\<exists>m t. map_of fs p = Some (Symlink m t) \<and> reach fs k t q)"

section \<open>The JSON formatter\<close>

text \<open>
  The values \<open>json_dumps_pretty\<close> is given: what Python's \<open>json\<close> module serialises,
  named after the Python types. A \<open>dict\<close> is an association list in insertion order with
  \<open>str\<close> keys (distinct, as in a Python \<open>dict\<close>). A \<open>str\<close> is a list of characters
  with code points below 256. \<open>float\<close> is not modelled, so nothing below speaks of the
  text of a float.
\<close>

datatype json =
    PNone
  | PBool bool
  | PInt int
  | PStr string
  | PList "json list"
  | PDict "(string \<times> json) list"

abbreviation (input) NL :: char where "NL \<equiv> CHR 0x0A"
abbreviation (input) QUOTE :: char where "QUOTE \<equiv> CHR 0x22"
abbreviation (input) BACKSLASH :: char where "BACKSLASH \<equiv> CHR 0x5C"

subsection \<open>\<open>json.dumps\<close> with an indent\<close>

text \<open>
  \<open>json.dumps(obj, indent=indent, sort_keys=sort_keys)\<close> as the encoder of Python 3 writes
  it for an integer \<open>indent\<close>: \<open>ensure_ascii\<close> escaping of strings, items separated by a
  comma and a newline followed by \<open>indent\<close> spaces per nesting level (none when \<open>indent\<close>
  is zero or negative), keys followed by a colon and a space, \<open>[]\<close> and \<open>{}\<close> for empty
  containers, keys sorted when \<open>sort_keys\<close> is set.
\<close>

fun str_join :: "string \<Rightarrow> string list \<Rightarrow> string" where
  "str_join sep [] = []"
| "str_join sep [x] = x"
| "str_join sep (x # y # ys) = x @ sep @ str_join sep (y # ys)"

definition hex_digit :: "nat \<Rightarrow> char" where
  "hex_digit d = (if d < 10 then char_of (48 + d) else char_of (87 + d))"

definition escape_char :: "char \<Rightarrow> string" where
  "escape_char c =
     (if c = QUOTE then [BACKSLASH, QUOTE]
      else if c = BACKSLASH then [BACKSLASH, BACKSLASH]
      else if c = NL then [BACKSLASH, CHR ''n'']
      else if c = CHR 0x0D then [BACKSLASH, CHR ''r'']
      else if c = CHR 0x09 then [BACKSLASH, CHR ''t'']
      else if c = CHR 0x0C then [BACKSLASH, CHR ''f'']
      else if c = CHR 0x08 then [BACKSLASH, CHR ''b'']
      else if (of_char c :: nat) < 32 \<or> 126 < (of_char c :: nat)
        then [BACKSLASH, CHR ''u'', CHR ''0'', CHR ''0'',
              hex_digit ((of_char c :: nat) div 16), hex_digit ((of_char c :: nat) mod 16)]
      else [c])"

definition encode_basestring_ascii :: "string \<Rightarrow> string" where
  "encode_basestring_ascii s = QUOTE # concat (map escape_char s) @ [QUOTE]"

fun str_nat :: "nat \<Rightarrow> string" where
  "str_nat n = (if n < 10 then [char_of (48 + n)] else str_nat (n div 10) @ [char_of (48 + n mod 10)])"

declare str_nat.simps [simp del]

definition str_int :: "int \<Rightarrow> string" where
  "str_int i = (if i < 0 then CHR ''-'' # str_nat (nat (- i)) else str_nat (nat i))"

definition newline_indent :: "int \<Rightarrow> nat \<Rightarrow> string" where
  "newline_indent indent level = NL # replicate (nat indent * level) CHR '' ''"

function (sequential) iterencode :: "int \<Rightarrow> bool \<Rightarrow> nat \<Rightarrow> json \<Rightarrow> string" where
  "iterencode indent sort_keys level PNone = ''null''"
| "iterencode indent sort_keys level (PBool b) = (if b then ''true'' else ''false'')"
| "iterencode indent sort_keys level (PInt i) = str_int i"
| "iterencode indent sort_keys level (PStr s) = encode_basestring_ascii s"
| "iterencode indent sort_keys level (PList xs) =
     (if xs = [] then ''[]''
      else ''['' @ newline_indent indent (Suc level)
           @ str_join ('','' @ newline_indent indent (Suc level))
               (map (iterencode indent sort_keys (Suc level)) xs)
           @ newline_indent indent level @ '']'')"
| "iterencode indent sort_keys level (PDict kvs) =
     (if kvs = [] then ''{}''
      else ''{'' @ newline_indent indent (Suc level)
           @ str_join ('','' @ newline_indent indent (Suc level))
               (map (\<lambda>kv. encode_basestring_ascii (fst kv) @ '': ''
                            @ iterencode indent sort_keys (Suc level) (snd kv))
                  (if sort_keys then sort_key fst kvs else kvs))
           @ newline_indent indent level @ ''}'')"
  by pat_completeness auto
termination
proof (relation "measure (\<lambda>(indent, sort_keys, level, j). size j)")
  show "wf (measure (\<lambda>(indent, sort_keys, level, j). size j))"
    by simp
next
  fix indent :: int and sort_keys :: bool and level :: nat and xs :: "json list" and x :: json
  assume "x \<in> set xs"
  then have "size x < Suc (size_list size xs)"
    by (simp add: less_Suc_eq_le size_list_estimation')
  then show "((indent, sort_keys, Suc level, x), (indent, sort_keys, level, PList xs))
      \<in> measure (\<lambda>(indent, sort_keys, level, j). size j)"
    by simp
next
  fix indent :: int and sort_keys :: bool and level :: nat
    and kvs :: "(string \<times> json) list" and kv :: "string \<times> json"
  assume "kv \<in> set (if sort_keys then sort_key fst kvs else kvs)"
  then have "kv \<in> set kvs"
    by (simp split: if_splits)
  then have "size_prod (\<lambda>k. 0) size kv \<le> size_list (size_prod (\<lambda>k. 0) size) kvs"
    by (simp add: size_list_estimation')
  then have "size (snd kv) < Suc (size_list (size_prod (\<lambda>k. 0) size) kvs)"
    by (cases kv) simp
  then show "((indent, sort_keys, Suc level, snd kv), (indent, sort_keys, level, PDict kvs))
      \<in> measure (\<lambda>(indent, sort_keys, level, j). size j)"
    by simp
qed


definition json_dumps :: "json \<Rightarrow> int \<Rightarrow> bool \<Rightarrow> string" where
  "json_dumps j indent sort_keys = iterencode indent sort_keys 0 j"

text \<open>
  \<open>str.replace(old, new)\<close> for a non-empty \<open>old\<close>, and \<open>_canonical_dumps\<close>, which removes
  a space before a newline. \<open>json_dumps_pretty\<close> always passes \<open>indent\<close>, so the test
  \<open>'indent' in kwargs\<close> is true there.
\<close>

function str_replace :: "string \<Rightarrow> string \<Rightarrow> string \<Rightarrow> string" where
  "str_replace old new [] = []"
| "str_replace old new (c # s) =
     (if old \<noteq> [] \<and> take (length old) (c # s) = old
      then new @ str_replace old new (drop (length old) (c # s))
      else c # str_replace old new s)"
  by pat_completeness auto
termination
  by (relation "measure (\<lambda>(old, new, s). length s)") auto

definition canonical_dumps :: "json \<Rightarrow> int \<Rightarrow> bool \<Rightarrow> string" where
  "canonical_dumps json_obj indent sort_keys =
     str_replace [CHR '' '', NL] [NL] (json_dumps json_obj indent sort_keys)"

subsection \<open>The regular expressions\<close>

text \<open>
  The four patterns of \<open>json_dumps_pretty\<close> use only character classes, the greedy
  quantifiers \<open>?\<close>, \<open>*\<close> and \<open>+\<close> on a class, one group and one lookahead. A pattern is a
  list of such items. \<open>rmatch\<close> is the backtracking matcher of \<open>re\<close> at one position: a
  greedy item first takes a character when it can and gives it back when the rest of the
  pattern fails. It returns the text of the group and the text left after the match.
\<close>

datatype item =
    One "char list"
  | Opt "char list"
  | Star "char list"
  | Plus "char list"
  | GroupOpen
  | GroupClose
  | Lookahead "item list"

fun capture :: "bool \<Rightarrow> char \<Rightarrow> string \<Rightarrow> string" where
  "capture ingroup c cap = (if ingroup then c # cap else cap)"

fun rmatch :: "item list \<Rightarrow> bool \<Rightarrow> string \<Rightarrow> string \<Rightarrow> (string \<times> string) option" where
  "rmatch [] ing cap s = Some (rev cap, s)"
| "rmatch (GroupOpen # r) ing cap s = rmatch r True cap s"
| "rmatch (GroupClose # r) ing cap s = rmatch r False cap s"
| "rmatch (Lookahead la # r) ing cap s =
     (case rmatch la False [] s of None \<Rightarrow> None | Some found \<Rightarrow> rmatch r ing cap s)"
| "rmatch (One cs # r) ing cap [] = None"
| "rmatch (One cs # r) ing cap (c # s) =
     (if c \<in> set cs then rmatch r ing (capture ing c cap) s else None)"
| "rmatch (Opt cs # r) ing cap [] = rmatch r ing cap []"
| "rmatch (Opt cs # r) ing cap (c # s) =
     (if c \<in> set cs
      then (case rmatch r ing (capture ing c cap) s of
              Some found \<Rightarrow> Some found
            | None \<Rightarrow> rmatch r ing cap (c # s))
      else rmatch r ing cap (c # s))"
| "rmatch (Star cs # r) ing cap [] = rmatch r ing cap []"
| "rmatch (Star cs # r) ing cap (c # s) =
     (if c \<in> set cs
      then (case rmatch (Star cs # r) ing (capture ing c cap) s of
              Some found \<Rightarrow> Some found
            | None \<Rightarrow> rmatch r ing cap (c # s))
      else rmatch r ing cap (c # s))"
| "rmatch (Plus cs # r) ing cap [] = None"
| "rmatch (Plus cs # r) ing cap (c # s) =
     (if c \<in> set cs then rmatch (Star cs # r) ing (capture ing c cap) s else None)"

text \<open>
  \<open>re.sub(pattern, repl, string)\<close>: the matches are found from left to right, the search
  resuming where a match ended; each is replaced by the template, in which \<open>Group1\<close>
  stands for the group's text. A match of no character (not possible with the four
  patterns below, each needs at least one character) is replaced and the search moves on
  by one character.
\<close>

datatype template = Lit string | Group1

fun expand :: "template list \<Rightarrow> string \<Rightarrow> string" where
  "expand [] g = []"
| "expand (Lit s # t) g = s @ expand t g"
| "expand (Group1 # t) g = g @ expand t g"

function re_sub :: "item list \<Rightarrow> template list \<Rightarrow> string \<Rightarrow> string" where
  "re_sub pat repl [] = (case rmatch pat False [] [] of None \<Rightarrow> [] | Some (g, rest) \<Rightarrow> expand repl g)"
| "re_sub pat repl (c # s) =
     (case rmatch pat False [] (c # s) of
        None \<Rightarrow> c # re_sub pat repl s
      | Some (g, rest) \<Rightarrow>
          (if length rest < length (c # s) then expand repl g @ re_sub pat repl rest
           else expand repl g @ c # re_sub pat repl s))"
  by pat_completeness auto
termination
  by (relation "measure (\<lambda>(pat, repl, s). length s)") auto

text \<open>
  The patterns, in the order the source applies them:
  \<^verbatim>\<open>[\n ]+("?[-+.0-9e]+"?,?) *\n(?= *"?[-+.0-9e]+"?)\<close>,
  \<^verbatim>\<open> *\]\<close>,
  \<^verbatim>\<open>  *("?[-+.0-9e]+"?)[ \n]*\<close> and
  \<^verbatim>\<open>\[ \<close>.
\<close>

definition numchars :: "char list" where
  "numchars = ''-+.0123456789e''"

definition collide_numbers :: "item list" where
  "collide_numbers =
     [Plus [NL, CHR '' ''],
      GroupOpen, Opt [QUOTE], Plus numchars, Opt [QUOTE], Opt '','', GroupClose,
      Star '' '', One [NL],
      Lookahead [Star '' '', Opt [QUOTE], Plus numchars, Opt [QUOTE]]]"

definition spaces_before_bracket :: "item list" where
  "spaces_before_bracket = [Star '' '', One '']'']"

definition spacing_before_numbers :: "item list" where
  "spacing_before_numbers =
     [One '' '', Star '' '', GroupOpen, Opt [QUOTE], Plus numchars, Opt [QUOTE], GroupClose,
      Star [CHR '' '', NL]]"

definition space_after_bracket :: "item list" where
  "space_after_bracket = [One ''['', One '' '']"

subsection \<open>\<open>json.loads\<close>\<close>

text \<open>
  The decoder of Python's \<open>json\<close> module on the values above: \<open>scan_once\<close> reads one value
  at the head of the text, \<open>JSONArray\<close> and \<open>JSONObject\<close> read the items of a container up
  to its closing bracket, \<open>scanstring\<close> reads a string after its opening quote. Each
  returns the value and the text left, or \<open>None\<close> where the decoder raises. A number with
  a fraction or an exponent is a \<open>float\<close> and a \<^verbatim>\<open>\u\<close> escape above 255 is a character
  outside the model: both end in \<open>None\<close> here. In \<open>JSONArray\<close> and \<open>JSONObject\<close> the
  comparison of lengths holds whenever it is reached (every item read takes at least
  one character); it makes the recursion well-founded by its text alone.
\<close>

datatype JSONDecodeError = JSONDecodeError

definition is_ws :: "char \<Rightarrow> bool" where
  "is_ws c = (c \<in> set [CHR '' '', CHR 0x09, NL, CHR 0x0D])"

definition skip_ws :: "string \<Rightarrow> string" where
  "skip_ws s = dropWhile is_ws s"

definition is_digit :: "char \<Rightarrow> bool" where
  "is_digit c = (CHR ''0'' \<le> c \<and> c \<le> CHR ''9'')"

definition hex_value :: "char \<Rightarrow> nat option" where
  "hex_value c =
     (if CHR ''0'' \<le> c \<and> c \<le> CHR ''9'' then Some (of_char c - 48)
      else if CHR ''a'' \<le> c \<and> c \<le> CHR ''f'' then Some (of_char c - 87)
      else if CHR ''A'' \<le> c \<and> c \<le> CHR ''F'' then Some (of_char c - 55)
      else None)"

fun hex4 :: "string \<Rightarrow> nat option" where
  "hex4 [a, b, c, d] =
     (case (hex_value a, hex_value b, hex_value c, hex_value d) of
        (Some x, Some y, Some z, Some w) \<Rightarrow> Some (((x * 16 + y) * 16 + z) * 16 + w)
      | _ \<Rightarrow> None)"
| "hex4 s = None"

definition unescape :: "char \<Rightarrow> char option" where
  "unescape e =
     (if e = QUOTE then Some QUOTE
      else if e = BACKSLASH then Some BACKSLASH
      else if e = CHR ''/'' then Some CHR ''/''
      else if e = CHR ''b'' then Some (CHR 0x08)
      else if e = CHR ''f'' then Some (CHR 0x0C)
      else if e = CHR ''n'' then Some NL
      else if e = CHR ''r'' then Some (CHR 0x0D)
      else if e = CHR ''t'' then Some (CHR 0x09)
      else None)"

function scanstring :: "string \<Rightarrow> string \<Rightarrow> (string \<times> string) option" where
  "scanstring [] acc = None"
| "scanstring (c # s) acc =
     (if c = QUOTE then Some (rev acc, s)
      else if c = BACKSLASH then
        (case s of
           [] \<Rightarrow> None
         | e # s' \<Rightarrow>
             (if e = CHR ''u'' then
                (case hex4 (take 4 s') of
                   None \<Rightarrow> None
                 | Some n \<Rightarrow> (if n < 256 then scanstring (drop 4 s') (char_of n # acc) else None))
              else (case unescape e of
                      None \<Rightarrow> None
                    | Some ch \<Rightarrow> scanstring s' (ch # acc))))
      else if (of_char c :: nat) < 32 then None
      else scanstring s (c # acc))"
  by pat_completeness auto
termination
  by (relation "measure (\<lambda>(s, acc). length s)") auto

fun digits_value :: "string \<Rightarrow> nat \<Rightarrow> nat" where
  "digits_value [] n = n"
| "digits_value (c # s) n = digits_value s (10 * n + (of_char c - 48))"

definition is_float_tail :: "string \<Rightarrow> bool" where
  "is_float_tail s =
     (case s of
        [] \<Rightarrow> False
      | c # r \<Rightarrow>
          (if c = CHR ''.'' then (case r of [] \<Rightarrow> False | d # r' \<Rightarrow> is_digit d)
           else if c = CHR ''e'' \<or> c = CHR ''E'' then
             (case r of
                [] \<Rightarrow> False
              | d # r' \<Rightarrow>
                  (if d = CHR ''-'' \<or> d = CHR ''+''
                   then (case r' of [] \<Rightarrow> False | d' # r'' \<Rightarrow> is_digit d')
                   else is_digit d))
           else False))"

definition match_number :: "string \<Rightarrow> (json \<times> string) option" where
  "match_number s =
     (let negative = (take 1 s = ''-'');
          s1 = (if negative then drop 1 s else s)
      in case s1 of
           [] \<Rightarrow> None
         | d # r \<Rightarrow>
             (if \<not> is_digit d then None
              else
                (let ds = (if d = CHR ''0'' then [d] else d # takeWhile is_digit r);
                     rest = (if d = CHR ''0'' then r else dropWhile is_digit r)
                 in if is_float_tail rest then None
                    else Some (PInt ((if negative then - 1 else 1) * int (digits_value ds 0)), rest))))"

definition to_dict :: "(string \<times> json) list \<Rightarrow> (string \<times> json) list" where
  "to_dict pairs = foldl (\<lambda>d kv. AList.update (fst kv) (snd kv) d) [] pairs"

function scan_once :: "string \<Rightarrow> (json \<times> string) option"
  and JSONArray :: "string \<Rightarrow> json list \<Rightarrow> (json list \<times> string) option"
  and JSONObject :: "string \<Rightarrow> (string \<times> json) list \<Rightarrow> ((string \<times> json) list \<times> string) option"
where
  "scan_once [] = None"
| "scan_once (c # s) =
     (if c = QUOTE then
        (case scanstring s [] of None \<Rightarrow> None | Some (str, r) \<Rightarrow> Some (PStr str, r))
      else if c = CHR ''{'' then
        (case skip_ws s of
           [] \<Rightarrow> None
         | d # r \<Rightarrow>
             (if d = CHR ''}'' then Some (PDict [], r)
              else if d = QUOTE then
                (case JSONObject r [] of
                   None \<Rightarrow> None
                 | Some (pairs, r') \<Rightarrow> Some (PDict (to_dict pairs), r'))
              else None))
      else if c = CHR ''['' then
        (case skip_ws s of
           [] \<Rightarrow> None
         | d # r \<Rightarrow>
             (if d = CHR '']'' then Some (PList [], r)
              else (case JSONArray (d # r) [] of
                      None \<Rightarrow> None
                    | Some (values, r') \<Rightarrow> Some (PList values, r'))))
      else if take 4 (c # s) = ''null'' then Some (PNone, drop 4 (c # s))
      else if take 4 (c # s) = ''true'' then Some (PBool True, drop 4 (c # s))
      else if take 5 (c # s) = ''false'' then Some (PBool False, drop 5 (c # s))
      else match_number (c # s))"
| "JSONArray s values =
     (case scan_once s of
        None \<Rightarrow> None
      | Some (v, r) \<Rightarrow>
          (case skip_ws r of
             [] \<Rightarrow> None
           | d # r' \<Rightarrow>
               (if d = CHR '']'' then Some (rev (v # values), r')
                else if d = CHR '','' \<and> length (skip_ws r') < length s
                  then JSONArray (skip_ws r') (v # values)
                else None)))"
| "JSONObject s pairs =
     (case scanstring s [] of
        None \<Rightarrow> None
      | Some (key, r) \<Rightarrow>
          (case skip_ws r of
             [] \<Rightarrow> None
           | c # r1 \<Rightarrow>
               (if c = CHR '':'' \<and> length (skip_ws r1) < length s then
                  (case scan_once (skip_ws r1) of
                     None \<Rightarrow> None
                   | Some (v, r2) \<Rightarrow>
                       (case skip_ws r2 of
                          [] \<Rightarrow> None
                        | d # r3 \<Rightarrow>
                            (if d = CHR ''}'' then Some (rev ((key, v) # pairs), r3)
                             else if d = CHR '','' then
                               (case skip_ws r3 of
                                  [] \<Rightarrow> None
                                | q # r4 \<Rightarrow>
                                    (if q = QUOTE \<and> length r4 < length s
                                     then JSONObject r4 ((key, v) # pairs)
                                     else None))
                             else None)))
                else None)))"
  by pat_completeness auto
termination
proof (relation "measure (\<lambda>x. case x of
          Inl s \<Rightarrow> 2 * length s
        | Inr (Inl (s, values)) \<Rightarrow> 2 * length s + 1
        | Inr (Inr (s, pairs)) \<Rightarrow> 2 * length s + 1)", goal_cases)
  case 1
  show ?case by simp
next
  case (2 c s d r)
  then have "length (d # r) \<le> length s"
    by (metis length_dropWhile_le skip_ws_def)
  then show ?case by simp
next
  case (3 c s d r)
  then have "length (d # r) \<le> length s"
    by (metis length_dropWhile_le skip_ws_def)
  then show ?case by simp
qed simp_all

definition json_loads :: "string \<Rightarrow> JSONDecodeError + json" where
  "json_loads s =
     (case scan_once (skip_ws s) of
        None \<Rightarrow> Inl JSONDecodeError
      | Some (obj, r) \<Rightarrow> (if skip_ws r = [] then Inr obj else Inl JSONDecodeError))"

text \<open>
  \<open>json_dumps_pretty(j, indent, sort_keys)\<close>: the canonical dump, the four substitutions,
  and \<open>json.loads\<close> of the result, whose value is not compared with \<open>j\<close> (the source has
  the assertion commented out) but whose error, if any, ends the function.
\<close>

definition json_dumps_pretty :: "json \<Rightarrow> int \<Rightarrow> bool \<Rightarrow> JSONDecodeError + string" where
  "json_dumps_pretty j indent sort_keys =
     (let js = canonical_dumps j indent sort_keys;
          js1 = re_sub collide_numbers [Lit '' '', Group1] js;
          js2 = re_sub spaces_before_bracket [Lit '']''] js1;
          js3 = re_sub spacing_before_numbers [Lit '' '', Group1] js2;
          js4 = re_sub space_after_bracket [Lit ''[''] js3
      in case json_loads js4 of Inl e \<Rightarrow> Inl e | Inr j' \<Rightarrow> Inr js4)"


section \<open>The mode arithmetic\<close>

lemma ALL_CAN_WRITE_value: "ALL_CAN_WRITE = 146"
  by (simp add: ALL_CAN_WRITE_def S_IWUSR_def S_IWGRP_def S_IWOTH_def)

lemma ALL_CAN_READ_value: "ALL_CAN_READ = 292"
  by (simp add: ALL_CAN_READ_def S_IRUSR_def S_IRGRP_def S_IROTH_def)

text \<open>The module's own assertion, \<open>ALL_CAN_READ >> 1 == ALL_CAN_WRITE\<close>.\<close>

lemma read_is_write_shifted: "drop_bit 1 ALL_CAN_READ = ALL_CAN_WRITE"
  by (simp add: ALL_CAN_READ_value ALL_CAN_WRITE_value drop_bit_eq_div)

lemma bit_146: "bit (146::int) n \<longleftrightarrow> n = 1 \<or> n = 4 \<or> n = 7"
  by (auto simp add: bit_numeral_rec bit_1_iff split: nat.splits)

lemma bit_292: "bit (292::int) n \<longleftrightarrow> n = 2 \<or> n = 5 \<or> n = 8"
  by (auto simp add: bit_numeral_rec bit_1_iff split: nat.splits)

lemma bit_4095: "bit (4095::int) n \<longleftrightarrow> n < 12"
  by (auto simp add: bit_numeral_rec bit_1_iff split: nat.splits)

lemma bit_new_perms_True: "bit (new_perms p True) n \<longleftrightarrow> bit p n \<and> n \<noteq> 1 \<and> n \<noteq> 4 \<and> n \<noteq> 7"
  by (auto simp add: new_perms_def ALL_CAN_WRITE_value bit_simps bit_146)

lemma bit_new_perms_False: "bit (new_perms p False) n \<longleftrightarrow> bit p n \<or> (bit p (Suc n) \<and> (n = 1 \<or> n = 4 \<or> n = 7))"
  by (auto simp add: new_perms_def ALL_CAN_READ_value bit_simps bit_292 bit_146 Let_def)

lemma bit_S_IMODE: "bit (S_IMODE m) n \<longleftrightarrow> bit m n \<and> n < 12"
  by (auto simp add: S_IMODE_def bit_simps bit_4095)

lemma S_IMODE_new_perms: "S_IMODE (new_perms (S_IMODE st) ro) = new_perms (S_IMODE st) ro"
  by (cases ro; rule bit_eqI) (auto simp add: bit_S_IMODE bit_new_perms_True bit_new_perms_False)

lemma new_perms_idem: "new_perms (new_perms p False) False = new_perms p False"
  by (rule bit_eqI) (auto simp add: bit_new_perms_False)

section \<open>Resolving paths\<close>

lemma lstat_fails_follow_fails: "lstat fs p = Inl e \<Longrightarrow> follow n fs p = Inl e"
  by (cases n) (auto simp add: lstat_def split: option.splits)

lemma follow_ends_at_file: "follow n fs p = Inr (q, m) \<Longrightarrow> map_of fs q = Some (File m)"
  by (induction n arbitrary: p) (auto split: option.splits node.splits)

lemma follow_update:
  "follow n fs p = Inr (q, m) \<Longrightarrow> follow n (AList.update q (File m') fs) p = Inr (q, m')"
proof (induction n arbitrary: p)
  case 0
  then show ?case
    by (auto simp add: update_conv' split: option.splits node.splits)
next
  case (Suc k)
  from Suc.prems have q: "map_of fs q = Some (File m)"
    by (rule follow_ends_at_file)
  show ?case
  proof (cases "map_of fs p")
    case None
    with Suc.prems show ?thesis by simp
  next
    case (Some n)
    show ?thesis
    proof (cases n)
      case (File m0)
      with Some Suc.prems show ?thesis by (simp add: update_conv')
    next
      case (Symlink m0 t)
      with Some q have "p \<noteq> q" by auto
      moreover from Some Symlink Suc.prems have "follow k fs t = Inr (q, m)" by simp
      ultimately show ?thesis
        using Some Symlink Suc.IH [of t] by (simp add: update_conv')
    qed
  qed
qed

lemma reach_deterministic: "reach fs k p q \<Longrightarrow> reach fs j p q' \<Longrightarrow> j = k"
proof (induction k arbitrary: j p)
  case 0
  then show ?case by (cases j) auto
next
  case (Suc k)
  then show ?case by (cases j) auto
qed

lemma follow_reach: "follow n fs p = Inr (q, m) \<Longrightarrow> \<exists>k. reach fs k p q"
proof (induction n arbitrary: p)
  case 0
  then have "reach fs 0 p q"
    by (auto split: option.splits node.splits)
  then show ?case ..
next
  case (Suc n)
  show ?case
  proof (cases "map_of fs p")
    case None
    with Suc.prems show ?thesis by simp
  next
    case (Some nd)
    show ?thesis
    proof (cases nd)
      case (File m0)
      with Some Suc.prems have "reach fs 0 p q" by simp
      then show ?thesis ..
    next
      case (Symlink m0 t)
      with Some Suc.prems have "follow n fs t = Inr (q, m)" by simp
      then obtain k where "reach fs k t q" using Suc.IH by blast
      with Some Symlink have "reach fs (Suc k) p q" by simp
      then show ?thesis ..
    qed
  qed
qed

lemma reach_realpath_from:
  "reach fs k p q \<Longrightarrow> \<forall>s \<in> set seen. \<forall>j \<le> k. \<not> reach fs j s q \<Longrightarrow> realpath_from fs seen p = q"
proof (induction k arbitrary: p seen)
  case 0
  then show ?case
    by (subst realpath_from.simps) auto
next
  case (Suc k)
  from Suc.prems(1) obtain m t where link: "map_of fs p = Some (Symlink m t)" and r: "reach fs k t q"
    by auto
  from Suc.prems have fresh: "p \<notin> set seen"
    by blast
  have "\<forall>s \<in> set (p # seen). \<forall>j \<le> k. \<not> reach fs j s q"
  proof (intro ballI allI impI)
    fix s j
    assume s: "s \<in> set (p # seen)" and j: "j \<le> k"
    show "\<not> reach fs j s q"
    proof (cases "s = p")
      case True
      show ?thesis
      proof
        assume "reach fs j s q"
        with True Suc.prems(1) have "j = Suc k"
          using reach_deterministic by blast
        with j show False by simp
      qed
    next
      case False
      with s have "s \<in> set seen" by simp
      with Suc.prems(2) j show ?thesis by simp
    qed
  qed
  with r have "realpath_from fs (p # seen) t = q"
    by (rule Suc.IH)
  with link fresh show ?case
    by (subst realpath_from.simps) simp
qed

lemma follow_realpath: "follow n fs p = Inr (q, m) \<Longrightarrow> realpath fs p = q"
proof -
  assume "follow n fs p = Inr (q, m)"
  then obtain k where "reach fs k p q"
    using follow_reach by blast
  then show ?thesis
    unfolding realpath_def by (rule reach_realpath_from) simp
qed

section \<open>Properties of \<open>set_readonly\<close> and \<open>is_readonly\<close>\<close>

lemma no_write_bits_iff: "m AND ALL_CAN_WRITE = 0 \<longleftrightarrow> (\<forall>c. \<not> bit m (write_bit c))"
proof
  assume z: "m AND ALL_CAN_WRITE = 0"
  show "\<forall>c. \<not> bit m (write_bit c)"
  proof
    fix c
    from z have "\<not> bit (m AND ALL_CAN_WRITE) (write_bit c)" by simp
    then show "\<not> bit m (write_bit c)"
      by (cases c) (simp_all add: ALL_CAN_WRITE_value bit_simps bit_146)
  qed
next
  assume a: "\<forall>c. \<not> bit m (write_bit c)"
  from a [rule_format, of Owner] a [rule_format, of Group] a [rule_format, of Others]
  show "m AND ALL_CAN_WRITE = 0"
    by (intro bit_eqI) (auto simp add: ALL_CAN_WRITE_value bit_simps bit_146)
qed

lemma set_readonly_unfold:
  "set_readonly fs p ro =
     (case lstat fs p of
        Inl e \<Rightarrow> (fs, Inl e)
      | Inr st \<Rightarrow>
          (case follow MAXSYMLINKS fs p of
             Inl e \<Rightarrow> (fs, Inl e)
           | Inr (q, m) \<Rightarrow>
               (AList.update q (File ((m AND NOT 4095) OR new_perms (S_IMODE st) ro)) fs,
                Inr (new_perms (S_IMODE st) ro))))"
proof -
  have "new_perms (S_IMODE st) ro AND 4095 = new_perms (S_IMODE st) ro" for st
    using S_IMODE_new_perms [of st ro] by (simp add: S_IMODE_def)
  then show ?thesis
    by (simp add: set_readonly_def chmod_def Let_def split: sum.splits prod.splits)
qed

lemma S_IMODE_replaced: "S_IMODE ((m AND NOT 4095) OR S_IMODE x) = S_IMODE x"
  by (rule bit_eqI) (auto simp add: bit_S_IMODE bit_simps bit_4095)

lemma type_bits_replaced: "((m AND NOT 4095) OR S_IMODE x) AND NOT 4095 = m AND NOT 4095"
  by (rule bit_eqI) (auto simp add: bit_S_IMODE bit_simps bit_4095)

lemma mode_rebuilt: "(m AND NOT 4095) OR S_IMODE m = m"
  by (rule bit_eqI) (auto simp add: bit_S_IMODE bit_simps bit_4095)

text \<open>
  Claim C2. For a path that exists (following it ends at an entry that is not a link),
  \<open>set_readonly(p, True)\<close> succeeds, \<open>is_readonly(p)\<close> then returns \<open>True\<close>, and none
  of the three write bits is set in the mode of the file the path leads to.
\<close>

theorem set_readonly_then_is_readonly:
  assumes "follow MAXSYMLINKS fs p = Inr (q, m)"
    and "set_readonly fs p True = (fs', r)"
  shows "(\<exists>np. r = Inr np) \<and> is_readonly fs' p = (fs', Inr True) \<and>
         (\<exists>m'. map_of fs' q = Some (File m') \<and> (\<forall>c. \<not> bit m' (write_bit c)))"
proof -
  from assms(1) obtain st where st: "lstat fs p = Inr st"
    using lstat_fails_follow_fails [of fs p _ MAXSYMLINKS] by (cases "lstat fs p") auto
  define np where "np = new_perms (S_IMODE st) True"
  define m' where "m' = (m AND NOT 4095) OR np"
  from assms st have fs': "fs' = AList.update q (File m') fs" and r: "r = Inr np"
    by (simp_all add: set_readonly_unfold np_def m'_def)
  have "follow MAXSYMLINKS fs' p = Inr (q, m')"
    unfolding fs' using assms(1) by (rule follow_update)
  then have rp: "realpath fs' p = q"
    by (rule follow_realpath)
  have look: "map_of fs' q = Some (File m')"
    by (simp add: fs' update_conv')
  have "S_IMODE np = np"
    unfolding np_def by (rule S_IMODE_new_perms)
  then have "S_IMODE m' = np"
    using S_IMODE_replaced [of m np] by (simp add: m'_def)
  moreover have "np AND ALL_CAN_WRITE = 0"
    by (rule bit_eqI) (auto simp add: np_def bit_new_perms_True ALL_CAN_WRITE_value bit_simps bit_146)
  ultimately have nw: "S_IMODE m' AND ALL_CAN_WRITE = 0"
    by simp
  then have "is_readonly fs' p = (fs', Inr True)"
    by (simp add: is_readonly_def rp lstat_def look)
  moreover from nw have "\<forall>c. \<not> bit m' (write_bit c)"
  proof -
    from nw have h: "\<forall>c. \<not> bit (S_IMODE m') (write_bit c)"
      by (rule no_write_bits_iff [THEN iffD1])
    show ?thesis
    proof
      fix c
      from h [rule_format, of c] show "\<not> bit m' (write_bit c)"
        by (cases c) (simp_all add: bit_S_IMODE)
    qed
  qed
  ultimately show ?thesis
    using r look by blast
qed

theorem set_readonly_then_is_readonly_witness:
  "follow MAXSYMLINKS [(''f'', File 33188)] ''f'' = Inr (''f'', 33188) \<and>
   set_readonly [(''f'', File 33188)] ''f'' True = ([(''f'', File 33060)], Inr 292) \<and>
   is_readonly [(''f'', File 33060)] ''f'' = ([(''f'', File 33060)], Inr True) \<and>
   (\<exists>m'. map_of [(''f'', File 33060)] ''f'' = Some (File m') \<and> (\<forall>c. \<not> bit m' (write_bit c)))"
proof -
  have h1: "follow MAXSYMLINKS [(''f'', File 33188)] ''f'' = Inr (''f'', 33188)"
    by code_simp
  have h2: "set_readonly [(''f'', File 33188)] ''f'' True = ([(''f'', File 33060)], Inr 292)"
    by code_simp
  from set_readonly_then_is_readonly [OF h1 h2] h1 h2 show ?thesis
    by simp
qed

lemma no_read_bits_iff: "m AND ALL_CAN_READ = 0 \<longleftrightarrow> (\<forall>c. \<not> bit m (read_bit c))"
proof
  assume z: "m AND ALL_CAN_READ = 0"
  show "\<forall>c. \<not> bit m (read_bit c)"
  proof
    fix c
    from z have "\<not> bit (m AND ALL_CAN_READ) (read_bit c)" by simp
    then show "\<not> bit m (read_bit c)"
      by (cases c) (simp_all add: ALL_CAN_READ_value bit_simps bit_292)
  qed
next
  assume a: "\<forall>c. \<not> bit m (read_bit c)"
  from a [rule_format, of Owner] a [rule_format, of Group] a [rule_format, of Others]
  show "m AND ALL_CAN_READ = 0"
    by (intro bit_eqI) (auto simp add: ALL_CAN_READ_value bit_simps bit_292)
qed

lemma new_perms_frame: "new_perms p ro AND NOT ALL_CAN_WRITE = p AND NOT ALL_CAN_WRITE"
  by (cases ro; rule bit_eqI)
    (auto simp add: bit_new_perms_True bit_new_perms_False ALL_CAN_WRITE_value bit_simps bit_146)

lemma new_perms_False_write_bit:
  "bit (new_perms p False) (write_bit c) \<longleftrightarrow> bit p (write_bit c) \<or> bit p (read_bit c)"
  by (cases c) (auto simp add: bit_new_perms_False eval_nat_numeral)

lemma follow_file: "map_of fs p = Some (File m) \<Longrightarrow> follow n fs p = Inr (p, m)"
  by (cases n) simp_all

lemma set_readonly_succeeds:
  assumes "set_readonly fs p ro = (fs', Inr np)"
  obtains st q m where "lstat fs p = Inr st" and "follow MAXSYMLINKS fs p = Inr (q, m)"
    and "np = new_perms (S_IMODE st) ro"
    and "fs' = AList.update q (File ((m AND NOT 4095) OR np)) fs"
  using assms by (auto simp add: set_readonly_unfold split: sum.splits prod.splits)

text \<open>
  For a path that is not a symbolic link, \<open>set_readonly\<close> changes the write bits of that
  entry only: its other bits, the file type bits included, and every other entry stay as
  they were.
\<close>

lemma set_readonly_frame_file:
  assumes "map_of fs p = Some (File st)" and "set_readonly fs p ro = (fs', r)"
  shows "\<exists>m'. map_of fs' p = Some (File m') \<and> r = Inr (S_IMODE m') \<and>
           m' AND NOT ALL_CAN_WRITE = st AND NOT ALL_CAN_WRITE \<and>
           (\<forall>p'. p' \<noteq> p \<longrightarrow> map_of fs' p' = map_of fs p')"
proof -
  define np where "np = new_perms (S_IMODE st) ro"
  define m' where "m' = (st AND NOT 4095) OR np"
  from assms(1) have l: "lstat fs p = Inr st"
    by (simp add: lstat_def)
  from assms(1) have f: "follow MAXSYMLINKS fs p = Inr (p, st)"
    by (rule follow_file)
  from assms(2) l f have fs': "fs' = AList.update p (File m') fs" and r: "r = Inr np"
    by (simp_all add: set_readonly_unfold np_def m'_def)
  have s: "S_IMODE np = np"
    unfolding np_def by (rule S_IMODE_new_perms)
  have "S_IMODE m' = np"
    using S_IMODE_replaced [of st np] s by (simp add: m'_def)
  moreover have "m' AND NOT ALL_CAN_WRITE = st AND NOT ALL_CAN_WRITE"
  proof (rule bit_eqI)
    fix n
    have "bit np n \<longleftrightarrow> bit (S_IMODE np) n"
      by (simp add: s)
    then show "bit (m' AND NOT ALL_CAN_WRITE) n \<longleftrightarrow> bit (st AND NOT ALL_CAN_WRITE) n"
      using new_perms_frame [of "S_IMODE st" ro, THEN arg_cong, of "\<lambda>x. bit x n"]
      by (auto simp add: m'_def np_def [symmetric] ALL_CAN_WRITE_value bit_simps bit_146 bit_4095 bit_S_IMODE)
  qed
  moreover have "map_of fs' p = Some (File m')"
    by (simp add: fs' update_conv')
  moreover have "\<forall>p'. p' \<noteq> p \<longrightarrow> map_of fs' p' = map_of fs p'"
    by (simp add: fs' update_conv')
  ultimately show ?thesis
    using r by blast
qed

text \<open>
  For a path that is not a symbolic link, \<open>set_readonly(p, False)\<close> succeeds and leaves
  the file with, in each class, the write bit set exactly when the class had its write
  bit or its read bit: it is newly set exactly where the read bit is set, and a class
  with no read bit keeps its write bit as it was. No other bit changes.
\<close>

lemma set_readonly_False_on_file:
  assumes "map_of fs p = Some (File st)" and "set_readonly fs p False = (fs', r)"
  shows "\<exists>m'. map_of fs' p = Some (File m') \<and> r = Inr (S_IMODE m') \<and>
           (\<forall>c. bit m' (write_bit c) \<longleftrightarrow> bit st (write_bit c) \<or> bit st (read_bit c)) \<and>
           m' AND NOT ALL_CAN_WRITE = st AND NOT ALL_CAN_WRITE"
proof -
  define np where "np = new_perms (S_IMODE st) False"
  define m' where "m' = (st AND NOT 4095) OR np"
  from assms(1) have l: "lstat fs p = Inr st"
    by (simp add: lstat_def)
  from assms(1) have f: "follow MAXSYMLINKS fs p = Inr (p, st)"
    by (rule follow_file)
  from assms(2) l f have fs': "fs' = AList.update p (File m') fs" and r: "r = Inr np"
    by (simp_all add: set_readonly_unfold np_def m'_def)
  have look: "map_of fs' p = Some (File m')"
    by (simp add: fs' update_conv')
  from set_readonly_frame_file [OF assms] look
  have frame: "r = Inr (S_IMODE m') \<and> m' AND NOT ALL_CAN_WRITE = st AND NOT ALL_CAN_WRITE"
    by auto
  have "bit m' (write_bit c) \<longleftrightarrow> bit st (write_bit c) \<or> bit st (read_bit c)" for c
  proof -
    have "bit m' (write_bit c) \<longleftrightarrow> bit np (write_bit c)"
      by (cases c) (simp_all add: m'_def bit_simps bit_4095)
    also have "\<dots> \<longleftrightarrow> bit (S_IMODE st) (write_bit c) \<or> bit (S_IMODE st) (read_bit c)"
      unfolding np_def by (rule new_perms_False_write_bit)
    also have "\<dots> \<longleftrightarrow> bit st (write_bit c) \<or> bit st (read_bit c)"
      by (cases c) (simp_all add: bit_S_IMODE)
    finally show ?thesis .
  qed
  with look frame show ?thesis
    by blast
qed

text \<open>
  Claim C3 (for every existing path, \<open>set_readonly(p, False)\<close> sets the write bit of
  exactly the classes that have their read bit and leaves the other classes untouched)
  fails when the path is a symbolic link: the read bits are taken from the link's own
  mode, the new mode is written to the file the link points to. Here \<open>l\<close> is a link (mode
  \<open>0o120777\<close>) to the file \<open>f\<close> with mode \<open>0o100600\<close>, in which group and others have
  neither the read bit nor the write bit: after \<open>set_readonly(l, False)\<close> the file has
  mode \<open>0o100777\<close>, so both classes have been given the write bit.
\<close>

theorem set_readonly_False_through_symlink:
  "set_readonly [(''l'', Symlink 41471 ''f''), (''f'', File 33152)] ''l'' False =
     ([(''l'', Symlink 41471 ''f''), (''f'', File 33279)], Inr 511) \<and>
   \<not> bit (33152::int) (read_bit Group) \<and> \<not> bit (33152::int) (write_bit Group) \<and>
   bit (33279::int) (write_bit Group) \<and>
   \<not> bit (33152::int) (read_bit Others) \<and> \<not> bit (33152::int) (write_bit Others) \<and>
   bit (33279::int) (write_bit Others)"
  by code_simp

text \<open>
  Claim C5 (changes only the write bits of the mode) fails on the file system when the
  path is a symbolic link. \<open>os.lstat\<close> reads the link's own mode, \<open>os.chmod\<close> writes to the
  file the link points to. Here \<open>l\<close> is a link (mode \<open>0o120777\<close>) to the file \<open>f\<close> with mode
  \<open>0o100600\<close>: after \<open>set_readonly(l, True)\<close> the file has mode \<open>0o100555\<close>, so its read
  bits for group and others and all its execute bits have changed.
\<close>

theorem set_readonly_through_symlink:
  "set_readonly [(''l'', Symlink 41471 ''f''), (''f'', File 33152)] ''l'' True =
     ([(''l'', Symlink 41471 ''f''), (''f'', File 33133)], Inr 365) \<and>
   (33133::int) AND NOT ALL_CAN_WRITE \<noteq> 33152 AND NOT ALL_CAN_WRITE"
  by code_simp

text \<open>
  Claim C6. Whenever following the symbolic links from \<open>path\<close>, however many, ends at an
  entry \<open>q\<close> with mode \<open>m\<close>, \<open>is_readonly(path)\<close> returns whether none of the three write
  bits of \<open>m\<close> is set; and for every path it leaves the file system as it was.
\<close>

theorem is_readonly_dereferences:
  assumes "follow n fs p = Inr (q, m)"
  shows "is_readonly fs p = (fs, Inr (\<forall>c. \<not> bit m (write_bit c))) \<and>
         (\<forall>p'. fst (is_readonly fs p') = fs)"
proof -
  from assms have "realpath fs p = q"
    by (rule follow_realpath)
  moreover from assms have "map_of fs q = Some (File m)"
    by (rule follow_ends_at_file)
  moreover have "(S_IMODE m AND ALL_CAN_WRITE = 0) = (\<forall>c. \<not> bit m (write_bit c))"
  proof -
    have "bit (S_IMODE m) (write_bit c) = bit m (write_bit c)" for c
      by (cases c) (simp_all add: bit_S_IMODE)
    then show ?thesis
      by (simp add: no_write_bits_iff)
  qed
  ultimately have "is_readonly fs p = (fs, Inr (\<forall>c. \<not> bit m (write_bit c)))"
    by (simp add: is_readonly_def lstat_def)
  moreover have "\<forall>p'. fst (is_readonly fs p') = fs"
    by (simp add: is_readonly_def Let_def split: sum.splits)
  ultimately show ?thesis
    by blast
qed

theorem is_readonly_dereferences_witness:
  "follow 2 [(''a'', Symlink 41471 ''b''), (''b'', Symlink 41471 ''f''), (''f'', File 33060)] ''a''
     = Inr (''f'', 33060) \<and>
   is_readonly [(''a'', Symlink 41471 ''b''), (''b'', Symlink 41471 ''f''), (''f'', File 33060)] ''a''
     = ([(''a'', Symlink 41471 ''b''), (''b'', Symlink 41471 ''f''), (''f'', File 33060)], Inr True)"
proof -
  have h: "follow 2 [(''a'', Symlink 41471 ''b''), (''b'', Symlink 41471 ''f''), (''f'', File 33060)] ''a''
     = Inr (''f'', 33060)"
    by code_simp
  have b: "(\<forall>c. \<not> bit (33060::int) (write_bit c)) = True"
    using no_write_bits_iff [of 33060] by (simp add: ALL_CAN_WRITE_value)
  from is_readonly_dereferences [OF h] h show ?thesis
    by (simp add: b)
qed

lemma new_perms_False_no_read: "p AND ALL_CAN_READ = 0 \<Longrightarrow> new_perms p False = p"
  by (simp add: new_perms_def)

text \<open>
  Claim C7, amended. For a path that is not a symbolic link and whose mode has no read bit
  in any class, \<open>set_readonly(path, False)\<close> grants nothing: it succeeds, returns the
  permission bits the file had, and leaves the file system as it was, so each write bit
  is unset afterwards exactly when it was unset before. The write bits are not cleared.
\<close>

theorem set_readonly_False_without_read_bits:
  assumes "map_of fs p = Some (File st)"
    and "\<forall>c. \<not> bit st (read_bit c)"
    and "set_readonly fs p False = (fs', r)"
  shows "fs' = fs \<and> r = Inr (S_IMODE st) \<and>
         (\<forall>c. bit (S_IMODE st) (write_bit c) \<longleftrightarrow> bit st (write_bit c))"
proof -
  from assms(1) have l: "lstat fs p = Inr st"
    by (simp add: lstat_def)
  from assms(1) have f: "follow MAXSYMLINKS fs p = Inr (p, st)"
    by (rule follow_file)
  have "bit (S_IMODE st) (read_bit c) = bit st (read_bit c)" for c
    by (cases c) (simp_all add: bit_S_IMODE)
  with assms(2) have "S_IMODE st AND ALL_CAN_READ = 0"
    by (simp add: no_read_bits_iff)
  then have np: "new_perms (S_IMODE st) False = S_IMODE st"
    by (rule new_perms_False_no_read)
  from assms(3) l f have "fs' = AList.update p (File ((st AND NOT 4095) OR S_IMODE st)) fs"
    and r: "r = Inr (S_IMODE st)"
    by (simp_all add: set_readonly_unfold np)
  then have "fs' = AList.update p (File st) fs"
    by (simp add: mode_rebuilt [simplified])
  with assms(1) have "fs' = fs"
    by (simp add: update_triv)
  moreover have "bit (S_IMODE st) (write_bit c) \<longleftrightarrow> bit st (write_bit c)" for c
    by (cases c) (simp_all add: bit_S_IMODE)
  ultimately show ?thesis
    using r by simp
qed

theorem set_readonly_False_without_read_bits_witness:
  "map_of [(''f'', File 32896)] ''f'' = Some (File 32896) \<and>
   32896 AND ALL_CAN_READ = 0 \<and>
   set_readonly [(''f'', File 32896)] ''f'' False = ([(''f'', File 32896)], Inr 128) \<and>
   S_IMODE 32896 = 128 \<and> bit (32896::int) (write_bit Owner)"
proof -
  have h1: "map_of [(''f'', File 32896)] ''f'' = Some (File 32896)"
    by simp
  have h0: "32896 AND ALL_CAN_READ = 0"
    by code_simp
  then have h2: "\<forall>c. \<not> bit (32896::int) (read_bit c)"
    by (rule no_read_bits_iff [THEN iffD1])
  have h3: "set_readonly [(''f'', File 32896)] ''f'' False = ([(''f'', File 32896)], Inr 128)"
    by code_simp
  have h4: "S_IMODE 32896 = 128"
    by code_simp
  from set_readonly_False_without_read_bits [OF h1 h2 h3] h0 h1 h3 h4 show ?thesis
    by simp
qed

text \<open>
  Claim C7 as stated fails: mode \<open>0o100200\<close> has no read bit, and after
  \<open>set_readonly(f, False)\<close> the owner's write bit is still set.
\<close>

theorem set_readonly_False_keeps_write_bit:
  "lstat [(''f'', File 32896)] ''f'' = Inr 32896 \<and>
   S_IMODE 32896 AND ALL_CAN_READ = 0 \<and>
   set_readonly [(''f'', File 32896)] ''f'' False = ([(''f'', File 32896)], Inr 128) \<and>
   (128::int) AND ALL_CAN_WRITE \<noteq> 0"
  by code_simp

text \<open>
  Claim C8. Calling \<open>set_readonly(p, False)\<close> again on the file system the first call left
  gives the same file system and the same result (the same mode, or the same error).
\<close>

theorem set_readonly_False_idempotent:
  "set_readonly (fst (set_readonly fs p False)) p False = set_readonly fs p False"
proof (cases "lstat fs p")
  case (Inl e)
  then show ?thesis
    by (simp add: set_readonly_unfold)
next
  case (Inr st)
  show ?thesis
  proof (cases "follow MAXSYMLINKS fs p")
    case (Inl e)
    with Inr show ?thesis
      by (simp add: set_readonly_unfold)
  next
    case (Inr qm)
    obtain q m where qm: "qm = (q, m)"
      by (cases qm)
    define np where "np = new_perms (S_IMODE st) False"
    define m1 where "m1 = (m AND NOT 4095) OR np"
    define fs1 where "fs1 = AList.update q (File m1) fs"
    have np_mode: "S_IMODE np = np"
      unfolding np_def by (rule S_IMODE_new_perms)
    from \<open>lstat fs p = Inr st\<close> Inr qm
    have once: "set_readonly fs p False = (fs1, Inr np)"
      by (simp add: set_readonly_unfold np_def m1_def fs1_def)
    from Inr qm have f1: "follow MAXSYMLINKS fs1 p = Inr (q, m1)"
      unfolding fs1_def by (simp add: follow_update)
    have m1_type: "m1 AND NOT 4095 = m AND NOT 4095"
      unfolding m1_def using type_bits_replaced [of m np] by (simp add: np_mode)
    have again: "AList.update q (File m1) fs1 = fs1"
      by (simp add: fs1_def)
    have "\<exists>st1. lstat fs1 p = Inr st1 \<and> new_perms (S_IMODE st1) False = np"
    proof (cases "p = q")
      case True
      from Inr qm have "map_of fs q = Some (File m)"
        by (simp add: follow_ends_at_file)
      with True \<open>lstat fs p = Inr st\<close> have "st = m"
        by (simp add: lstat_def)
      from True have "lstat fs1 p = Inr m1"
        by (simp add: lstat_def fs1_def update_conv')
      moreover have "S_IMODE m1 = np"
        unfolding m1_def using S_IMODE_replaced [of m np] by (simp add: np_mode)
      moreover have "new_perms np False = np"
        unfolding np_def by (rule new_perms_idem)
      ultimately show ?thesis
        by simp
    next
      case False
      with \<open>lstat fs p = Inr st\<close> have "lstat fs1 p = Inr st"
        by (simp add: lstat_def fs1_def update_conv')
      then show ?thesis
        by (simp add: np_def)
    qed
    then obtain st1 where "lstat fs1 p = Inr st1" and "new_perms (S_IMODE st1) False = np"
      by blast
    with f1 have step: "set_readonly fs1 p False =
        (AList.update q (File ((m1 AND NOT 4095) OR np)) fs1, Inr np)"
      by (simp add: set_readonly_unfold)
    have "(m1 AND NOT 4095) OR np = m1"
      unfolding m1_type by (simp add: m1_def)
    with step again have "set_readonly fs1 p False = (fs1, Inr np)"
      by (simp only:)
    with once show ?thesis
      by simp
  qed
qed

text \<open>
  Claim C9. If \<open>os.lstat\<close> fails, or \<open>os.chmod\<close> would fail, with an error, then
  \<open>set_readonly\<close> ends with that error and the file system is the one it was given: no
  mode is written before the read has succeeded, and no failure is returned as a mode.
\<close>

theorem set_readonly_failure:
  assumes "lstat fs p = Inl e \<or> (\<exists>mode. snd (chmod fs p mode) = Inl e)"
  shows "set_readonly fs p read_only = (fs, Inl e)"
proof -
  from assms have "follow MAXSYMLINKS fs p = Inl e"
  proof
    assume "lstat fs p = Inl e"
    then show ?thesis
      by (rule lstat_fails_follow_fails)
  next
    assume "\<exists>mode. snd (chmod fs p mode) = Inl e"
    then show ?thesis
      by (cases "follow MAXSYMLINKS fs p") (auto simp add: chmod_def)
  qed
  then show ?thesis
    using lstat_fails_follow_fails [of fs p _ MAXSYMLINKS]
    by (auto simp add: set_readonly_unfold split: sum.splits)
qed

theorem set_readonly_failure_witness:
  "lstat [(''l'', Symlink 41471 ''gone'')] ''missing'' = Inl ENOENT \<and>
   set_readonly [(''l'', Symlink 41471 ''gone'')] ''missing'' True
     = ([(''l'', Symlink 41471 ''gone'')], Inl ENOENT) \<and>
   lstat [(''l'', Symlink 41471 ''gone'')] ''l'' = Inr 41471 \<and>
   snd (chmod [(''l'', Symlink 41471 ''gone'')] ''l'' 365) = Inl ENOENT \<and>
   set_readonly [(''l'', Symlink 41471 ''gone'')] ''l'' True
     = ([(''l'', Symlink 41471 ''gone'')], Inl ENOENT)"
proof -
  have h1: "lstat [(''l'', Symlink 41471 ''gone'')] ''missing'' = Inl ENOENT"
    by code_simp
  have h2: "snd (chmod [(''l'', Symlink 41471 ''gone'')] ''l'' 365) = Inl ENOENT"
    by code_simp
  have h3: "lstat [(''l'', Symlink 41471 ''gone'')] ''l'' = Inr 41471"
    by code_simp
  from h1 have a1: "lstat [(''l'', Symlink 41471 ''gone'')] ''missing'' = Inl ENOENT \<or>
      (\<exists>mode. snd (chmod [(''l'', Symlink 41471 ''gone'')] ''missing'' mode) = Inl ENOENT)"
    by (rule disjI1)
  from h2 have a2: "lstat [(''l'', Symlink 41471 ''gone'')] ''l'' = Inl ENOENT \<or>
      (\<exists>mode. snd (chmod [(''l'', Symlink 41471 ''gone'')] ''l'' mode) = Inl ENOENT)"
    by blast
  from set_readonly_failure [OF a1, of True] set_readonly_failure [OF a2, of True] h1 h2 h3
  show ?thesis
    by simp
qed

lemma write_implies_read_classes:
  "write_implies_read m \<longleftrightarrow> (bit m 7 \<longrightarrow> bit m 8) \<and> (bit m 4 \<longrightarrow> bit m 5) \<and> (bit m 1 \<longrightarrow> bit m 2)"
proof
  assume "write_implies_read m"
  then have "bit m (write_bit c) \<longrightarrow> bit m (read_bit c)" for c
    by (simp add: write_implies_read_def)
  from this [of Owner] this [of Group] this [of Others]
  show "(bit m 7 \<longrightarrow> bit m 8) \<and> (bit m 4 \<longrightarrow> bit m 5) \<and> (bit m 1 \<longrightarrow> bit m 2)"
    by simp
next
  assume a: "(bit m 7 \<longrightarrow> bit m 8) \<and> (bit m 4 \<longrightarrow> bit m 5) \<and> (bit m 1 \<longrightarrow> bit m 2)"
  show "write_implies_read m"
    unfolding write_implies_read_def
  proof
    fix c
    from a show "bit m (write_bit c) \<longrightarrow> bit m (read_bit c)"
      by (cases c) simp_all
  qed
qed

lemma new_perms_False_fixed:
  assumes "\<forall>c. bit x (write_bit c) \<longleftrightarrow> bit x (read_bit c)"
  shows "new_perms x False = x"
proof (rule bit_eqI)
  fix n
  from assms [rule_format, of Owner] assms [rule_format, of Group] assms [rule_format, of Others]
  show "bit (new_perms x False) n \<longleftrightarrow> bit x n"
    by (auto simp add: bit_new_perms_False eval_nat_numeral)
qed

lemma new_perms_round_trip:
  assumes "\<forall>c. bit x (write_bit c) \<longleftrightarrow> bit x (read_bit c)"
  shows "new_perms (new_perms x True) False = x"
proof (rule bit_eqI)
  fix n
  from assms [rule_format, of Owner] assms [rule_format, of Group] assms [rule_format, of Others]
  show "bit (new_perms (new_perms x True) False) n \<longleftrightarrow> bit x n"
    by (auto simp add: bit_new_perms_False bit_new_perms_True eval_nat_numeral)
qed

text \<open>
  Claim C10, amended. When in every class the initial mode has its write bit set exactly
  when it has its read bit set, \<open>set_readonly(p, True)\<close> followed by
  \<open>set_readonly(p, False)\<close> returns the initial mode, and a path that is not a symbolic
  link has the file system exactly as it was before the two calls.
\<close>

theorem set_readonly_round_trip:
  assumes "lstat fs p = Inr st"
    and "\<forall>c. bit (S_IMODE st) (write_bit c) \<longleftrightarrow> bit (S_IMODE st) (read_bit c)"
    and "set_readonly fs p True = (fs1, Inr np1)"
    and "set_readonly fs1 p False = (fs2, Inr np2)"
  shows "np2 = S_IMODE st \<and> (map_of fs p = Some (File st) \<longrightarrow> fs2 = fs)"
proof -
  from assms(3) obtain st0 q m where "lstat fs p = Inr st0"
    and f: "follow MAXSYMLINKS fs p = Inr (q, m)"
    and "np1 = new_perms (S_IMODE st0) True"
    and fs1: "fs1 = AList.update q (File ((m AND NOT 4095) OR np1)) fs"
    by (rule set_readonly_succeeds)
  with assms(1) have np1: "np1 = new_perms (S_IMODE st) True"
    by simp
  define m1 where "m1 = (m AND NOT 4095) OR np1"
  from f have f1: "follow MAXSYMLINKS fs1 p = Inr (q, m1)"
    unfolding fs1 m1_def by (rule follow_update)
  from assms(4) obtain st1 q' m' where l1: "lstat fs1 p = Inr st1"
    and "follow MAXSYMLINKS fs1 p = Inr (q', m')"
    and np2: "np2 = new_perms (S_IMODE st1) False"
    and "fs2 = AList.update q' (File ((m' AND NOT 4095) OR np2)) fs1"
    by (rule set_readonly_succeeds)
  with f1 have fs2: "fs2 = AList.update q (File ((m1 AND NOT 4095) OR np2)) fs1"
    by simp
  have np1_mode: "S_IMODE np1 = np1"
    unfolding np1 by (rule S_IMODE_new_perms)
  have m1_mode: "S_IMODE m1 = np1"
    unfolding m1_def using S_IMODE_replaced [of m np1] by (simp add: np1_mode)
  have m1_type: "m1 AND NOT 4095 = m AND NOT 4095"
    unfolding m1_def using type_bits_replaced [of m np1] by (simp add: np1_mode)
  from f have q_file: "map_of fs q = Some (File m)"
    by (rule follow_ends_at_file)
  have result: "np2 = S_IMODE st"
  proof (cases "p = q")
    case True
    then have "lstat fs1 p = Inr m1"
      by (simp add: lstat_def fs1 update_conv' m1_def)
    with l1 have "st1 = m1"
      by simp
    with np2 m1_mode np1 show ?thesis
      by (simp add: new_perms_round_trip [OF assms(2)])
  next
    case False
    with assms(1) have "lstat fs1 p = Inr st"
      by (simp add: lstat_def fs1 update_conv')
    with l1 have "st1 = st"
      by simp
    with np2 show ?thesis
      by (simp add: new_perms_False_fixed [OF assms(2)])
  qed
  have "fs2 = fs" if isfile: "map_of fs p = Some (File st)"
  proof -
    from isfile have "follow MAXSYMLINKS fs p = Inr (p, st)"
      by (rule follow_file)
    with f have "q = p" and "m = st"
      by simp_all
    have "(m1 AND NOT 4095) OR np2 = st"
      unfolding m1_type result \<open>m = st\<close> by (rule mode_rebuilt)
    with fs2 have "fs2 = AList.update q (File st) fs1"
      by (simp only:)
    then have "fs2 = AList.update p (File st) fs"
      unfolding fs1 \<open>q = p\<close> by (simp only: update_last)
    with isfile show ?thesis
      by (simp add: update_triv)
  qed
  with result show ?thesis
    by simp
qed

theorem set_readonly_round_trip_witness:
  "map_of [(''f'', File 33206)] ''f'' = Some (File 33206) \<and>
   lstat [(''f'', File 33206)] ''f'' = Inr 33206 \<and>
   S_IMODE 33206 AND ALL_CAN_WRITE = drop_bit 1 (S_IMODE 33206 AND ALL_CAN_READ) \<and>
   set_readonly [(''f'', File 33206)] ''f'' True = ([(''f'', File 33060)], Inr 292) \<and>
   set_readonly [(''f'', File 33060)] ''f'' False = ([(''f'', File 33206)], Inr 438) \<and>
   S_IMODE 33206 = 438"
proof -
  have h1: "lstat [(''f'', File 33206)] ''f'' = Inr 33206"
    by code_simp
  have h0: "S_IMODE 33206 = 438"
    by code_simp
  have h2: "\<forall>c. bit (S_IMODE 33206) (write_bit c) \<longleftrightarrow> bit (S_IMODE 33206) (read_bit c)"
  proof
    fix c
    show "bit (S_IMODE 33206) (write_bit c) \<longleftrightarrow> bit (S_IMODE 33206) (read_bit c)"
      unfolding h0 by (cases c) simp_all
  qed
  have h3: "set_readonly [(''f'', File 33206)] ''f'' True = ([(''f'', File 33060)], Inr 292)"
    by code_simp
  have h4: "set_readonly [(''f'', File 33060)] ''f'' False = ([(''f'', File 33206)], Inr 438)"
    by code_simp
  have h5: "S_IMODE 33206 AND ALL_CAN_WRITE = drop_bit 1 (S_IMODE 33206 AND ALL_CAN_READ)"
    by code_simp
  from set_readonly_round_trip [OF h1 h2 h3 h4] h0 h1 h3 h4 h5 show ?thesis
    by simp
qed

text \<open>
  Claim C10 as stated fails: in mode \<open>0o100644\<close> every class with the write bit has the
  read bit, and the two calls leave mode \<open>0o100666\<close>.
\<close>

theorem set_readonly_round_trip_grants_write:
  "write_implies_read (S_IMODE 33188) \<and>
   set_readonly [(''f'', File 33188)] ''f'' True = ([(''f'', File 33060)], Inr 292) \<and>
   set_readonly [(''f'', File 33060)] ''f'' False = ([(''f'', File 33206)], Inr 438) \<and>
   S_IMODE 33188 = 420 \<and> (438::int) \<noteq> 420 \<and> File 33206 \<noteq> File 33188"
proof -
  have "S_IMODE 33188 = 420"
    by code_simp
  moreover have "write_implies_read 420"
    by (simp add: write_implies_read_classes)
  moreover have "set_readonly [(''f'', File 33188)] ''f'' True = ([(''f'', File 33060)], Inr 292)"
    by code_simp
  moreover have "set_readonly [(''f'', File 33060)] ''f'' False = ([(''f'', File 33206)], Inr 438)"
    by code_simp
  ultimately show ?thesis
    by simp
qed


section \<open>Properties of \<open>json_dumps_pretty\<close>\<close>

text \<open>
  Claim C1 (the text returned parses back to the value given) fails: the substitutions
  also rewrite text inside strings. The third one replaces the two spaces of \<open>"run  1"\<close>
  by one, the result is valid JSON, and it is a different value.
\<close>

theorem json_dumps_pretty_changes_string:
  "canonical_dumps (PDict [(''k'', PStr ''run  1'')]) 2 True
     = ''{\<newline>  \"k\": \"run  1\"\<newline>}'' \<and>
   json_dumps_pretty (PDict [(''k'', PStr ''run  1'')]) 2 True
     = Inr ''{\<newline>  \"k\": \"run 1\"}'' \<and>
   json_loads ''{\<newline>  \"k\": \"run 1\"}'' = Inr (PDict [(''k'', PStr ''run 1'')]) \<and>
   PDict [(''k'', PStr ''run 1'')] \<noteq> PDict [(''k'', PStr ''run  1'')]"
  by code_simp

text \<open>
  Claim C4 (every run of lines holding a lone number is merged onto one line of numbers
  separated by spaces) fails for \<open>indent=0\<close>: the first substitution needs white space
  before each number, and after it has taken the newline before \<open>2\<close> there is none, so
  \<open>3\<close> stays on a line of its own and \<open>1,2\<close> are joined without a space.
\<close>

theorem json_dumps_pretty_indent_0:
  "canonical_dumps (PList [PInt 1, PInt 2, PInt 3]) 0 True = ''[\<newline>1,\<newline>2,\<newline>3\<newline>]'' \<and>
   json_dumps_pretty (PList [PInt 1, PInt 2, PInt 3]) 0 True = Inr ''[1,2,\<newline>3\<newline>]''"
  by code_simp

text \<open>
  The same function with \<open>indent=2\<close> on a dict holding a list of five numbers and a
  string: the baseline has one number per line, the
  result has \<open>[1, 2, 3, 4, 5]\<close> on one line and \<open>"b": "x"\<close> on the next, and parsing it
  gives the value back.
\<close>

lemma json_dumps_pretty_scenario_4:
  "canonical_dumps (PDict [(''a'', PList [PInt 1, PInt 2, PInt 3, PInt 4, PInt 5]), (''b'', PStr ''x'')]) 2 True
     = ''{\<newline>  \"a\": [\<newline>    1,\<newline>    2,\<newline>    3,\<newline>    4,\<newline>    5\<newline>  ],\<newline>  \"b\": \"x\"\<newline>}'' \<and>
   json_dumps_pretty (PDict [(''a'', PList [PInt 1, PInt 2, PInt 3, PInt 4, PInt 5]), (''b'', PStr ''x'')]) 2 True
     = Inr ''{\<newline>  \"a\": [1, 2, 3, 4, 5],\<newline>  \"b\": \"x\"\<newline>}'' \<and>
   json_loads ''{\<newline>  \"a\": [1, 2, 3, 4, 5],\<newline>  \"b\": \"x\"\<newline>}''
     = Inr (PDict [(''a'', PList [PInt 1, PInt 2, PInt 3, PInt 4, PInt 5]), (''b'', PStr ''x'')])"
  by code_simp


end
